theory Spec2Isabelle
  imports Main "HOL-Library.Sublist"
begin

section \<open>Go values: strings, errors, panics\<close>

text \<open>
  A Go string is a sequence of bytes; \<^typ>\<open>string\<close> (a list of 8-bit characters) is
  exactly that. Indexing and slicing a string out of range does not return an error in Go:
  the runtime panics. The three bounds failures that the decoder can raise are kept apart,
  each with the two numbers the runtime reports.
\<close>

datatype runtime_error =
    BoundsIndex int int       \<comment> \<open>index out of range [x] with length y\<close>
  | BoundsSliceAlen int int   \<comment> \<open>slice bounds out of range [:x] with length y\<close>
  | BoundsSliceB int int      \<comment> \<open>slice bounds out of range [x:y]\<close>

datatype num_err = ErrSyntax | ErrRange

datatype error =
    Errorf string "string list"     \<comment> \<open>errors.Errorf(format, parts)\<close>
  | NumError string string num_err  \<comment> \<open>strconv.NumError: Func, Num, Err\<close>
  | EOF                             \<comment> \<open>io.EOF\<close>
  | ErrTooLong                      \<comment> \<open>bufio.ErrTooLong\<close>
  | ErrNoProgress                   \<comment> \<open>io.ErrNoProgress\<close>

text \<open>A call either panics or returns its value.\<close>

datatype 'a outcome = Panic runtime_error | Return 'a

definition obind :: "'a outcome \<Rightarrow> ('a \<Rightarrow> 'b outcome) \<Rightarrow> 'b outcome" where
  "obind x f = (case x of Panic e \<Rightarrow> Panic e | Return v \<Rightarrow> f v)"

text \<open>\<open>s[i]\<close> and \<open>s[lo:hi]\<close> with the checks of the Go runtime, in its order.\<close>

definition index :: "string \<Rightarrow> int \<Rightarrow> char outcome" where
  "index s i =
     (if 0 \<le> i \<and> i < int (length s) then Return (s ! nat i)
      else Panic (BoundsIndex i (int (length s))))"

definition slice :: "string \<Rightarrow> int \<Rightarrow> int \<Rightarrow> string outcome" where
  "slice s lo hi =
     (if hi < 0 \<or> int (length s) < hi then Panic (BoundsSliceAlen hi (int (length s)))
      else if lo < 0 \<or> hi < lo then Panic (BoundsSliceB lo hi)
      else Return (take (nat (hi - lo)) (drop (nat lo) s)))"

section \<open>Library functions the decoder calls\<close>

subsection \<open>strings.Split with a one-byte separator\<close>

fun IndexByte :: "string \<Rightarrow> char \<Rightarrow> nat option" where
  "IndexByte [] c = None"
| "IndexByte (x # xs) c = (if x = c then Some 0 else map_option Suc (IndexByte xs c))"

lemma IndexByte_less: "IndexByte s c = Some m \<Longrightarrow> m < length s"
  by (induction s arbitrary: m) (auto split: if_splits)

function Split :: "string \<Rightarrow> char \<Rightarrow> string list" where
  "Split s sep =
     (case IndexByte s sep of
        None \<Rightarrow> [s]
      | Some m \<Rightarrow> take m s # Split (drop (m + 1) s) sep)"
  by pat_completeness auto
termination
  by (relation "measure (\<lambda>(s, sep). length s)") (auto dest: IndexByte_less)

declare Split.simps [simp del]

subsection \<open>strconv.Atoi\<close>

definition syntaxError :: "string \<Rightarrow> string \<Rightarrow> error" where
  "syntaxError fn str = NumError fn str ErrSyntax"

definition rangeError :: "string \<Rightarrow> string \<Rightarrow> error" where
  "rangeError fn str = NumError fn str ErrRange"

definition fnAtoi :: string where
  "fnAtoi = ''Atoi''"

text \<open>
  Atoi on a platform whose \<open>int\<close> has 64 bits. The fast path, for 1 to 18 bytes, strips
  one sign and reads digits with \<open>ch -= '0'; if ch > 9\<close> on a byte, so the subtraction
  wraps modulo 256.
\<close>

fun atoi_digits :: "int \<Rightarrow> string \<Rightarrow> int option" where
  "atoi_digits n [] = Some n"
| "atoi_digits n (ch # s) =
     (let d = (of_char ch - 48) mod 256 :: int
      in if d > 9 then None else atoi_digits (n * 10 + d) s)"

text \<open>
  The slow path, ParseUint in base 10 on 64 bits: a byte that is no digit is a syntax
  error, a value beyond \<open>2^64 - 1\<close> a range error, whichever the loop meets first.
\<close>

fun ParseUint_digits :: "int \<Rightarrow> string \<Rightarrow> num_err + int" where
  "ParseUint_digits n [] = Inr n"
| "ParseUint_digits n (c # s) =
     (if \<not> (48 \<le> (of_char c :: int) \<and> (of_char c :: int) \<le> 57) then Inl ErrSyntax
      else if n \<ge> (2 ^ 64 - 1) div 10 + 1 then Inl ErrRange
      else let n1 = n * 10 + (of_char c - 48)
           in if n1 > 2 ^ 64 - 1 then Inl ErrRange else ParseUint_digits n1 s)"

definition ParseUint :: "string \<Rightarrow> num_err + int" where
  "ParseUint s = (if s = [] then Inl ErrSyntax else ParseUint_digits 0 s)"

definition ParseInt :: "string \<Rightarrow> string \<Rightarrow> int \<times> error option" where
  "ParseInt fn s =
     (if s = [] then (0, Some (syntaxError fn s))
      else
        let neg = (hd s = CHR ''-'');
            s1 = (if hd s = CHR ''+'' \<or> hd s = CHR ''-'' then tl s else s)
        in case ParseUint s1 of
             Inl ErrSyntax \<Rightarrow> (0, Some (syntaxError fn s))
           | Inl ErrRange \<Rightarrow>
               (if neg then (- (2 ^ 63), Some (rangeError fn s))
                else (2 ^ 63 - 1, Some (rangeError fn s)))
           | Inr un \<Rightarrow>
               (if \<not> neg \<and> un \<ge> 2 ^ 63 then (2 ^ 63 - 1, Some (rangeError fn s))
                else if neg \<and> un > 2 ^ 63 then (- (2 ^ 63), Some (rangeError fn s))
                else (if neg then - un else un, None)))"

definition Atoi :: "string \<Rightarrow> int \<times> error option" where
  "Atoi s =
     (let sLen = length s
      in if 0 < sLen \<and> sLen < 19 then
           (let s0 = s;
                s1 = (if hd s = CHR ''-'' \<or> hd s = CHR ''+'' then tl s else s)
            in if (hd s = CHR ''-'' \<or> hd s = CHR ''+'') \<and> length s1 < 1
               then (0, Some (syntaxError fnAtoi s0))
               else case atoi_digits 0 s1 of
                      None \<Rightarrow> (0, Some (syntaxError fnAtoi s0))
                    | Some n \<Rightarrow> (if hd s0 = CHR ''-'' then - n else n, None))
         else ParseInt fnAtoi s)"

subsection \<open>strings.TrimSpace\<close>

text \<open>
  TrimSpace removes leading and trailing white space as Unicode defines it, reading the
  string as UTF-8. The white-space runes are the six ASCII ones, U+0085, U+00A0, U+1680,
  U+2000 to U+200A, U+2028, U+2029, U+202F, U+205F and U+3000; \<open>space_runes\<close> lists their
  UTF-8 encodings. A byte sequence that is not one of these decodes to another rune or to
  the replacement rune, neither of which is white space.
\<close>

definition space_runes :: "string list" where
  "space_runes =
     [[CHR 0x09], [CHR 0x0A], [CHR 0x0B], [CHR 0x0C], [CHR 0x0D], [CHR 0x20],
      [CHR 0xC2, CHR 0x85], [CHR 0xC2, CHR 0xA0],
      [CHR 0xE1, CHR 0x9A, CHR 0x80],
      [CHR 0xE2, CHR 0x80, CHR 0x80], [CHR 0xE2, CHR 0x80, CHR 0x81],
      [CHR 0xE2, CHR 0x80, CHR 0x82], [CHR 0xE2, CHR 0x80, CHR 0x83],
      [CHR 0xE2, CHR 0x80, CHR 0x84], [CHR 0xE2, CHR 0x80, CHR 0x85],
      [CHR 0xE2, CHR 0x80, CHR 0x86], [CHR 0xE2, CHR 0x80, CHR 0x87],
      [CHR 0xE2, CHR 0x80, CHR 0x88], [CHR 0xE2, CHR 0x80, CHR 0x89],
      [CHR 0xE2, CHR 0x80, CHR 0x8A],
      [CHR 0xE2, CHR 0x80, CHR 0xA8], [CHR 0xE2, CHR 0x80, CHR 0xA9],
      [CHR 0xE2, CHR 0x80, CHR 0xAF],
      [CHR 0xE2, CHR 0x81, CHR 0x9F],
      [CHR 0xE3, CHR 0x80, CHR 0x80]]"

definition leading_space :: "string \<Rightarrow> string option" where
  "leading_space s = find (\<lambda>w. prefix w s) space_runes"

definition trailing_space :: "string \<Rightarrow> string option" where
  "trailing_space s = find (\<lambda>w. suffix w s) space_runes"

lemma space_runes_nonempty: "w \<in> set space_runes \<Longrightarrow> w \<noteq> []"
  by (auto simp: space_runes_def)

lemma leading_space_Some:
  "leading_space s = Some w \<Longrightarrow> w \<in> set space_runes \<and> prefix w s"
  by (auto simp: leading_space_def find_Some_iff)

lemma trailing_space_Some:
  "trailing_space s = Some w \<Longrightarrow> w \<in> set space_runes \<and> suffix w s"
  by (auto simp: trailing_space_def find_Some_iff)

lemma leading_space_shorter:
  assumes "leading_space s = Some w"
  shows "length (drop (length w) s) < length s"
proof -
  from assms have "w \<noteq> []" and "prefix w s"
    using leading_space_Some space_runes_nonempty by blast+
  then have "0 < length w" and "length w \<le> length s"
    by (auto simp: prefix_length_le)
  then have "length s - length w < length s" by linarith
  then show ?thesis by simp
qed

lemma trailing_space_shorter:
  assumes "trailing_space s = Some w"
  shows "length (take (length s - length w) s) < length s"
proof -
  from assms have "w \<noteq> []" and "suffix w s"
    using trailing_space_Some space_runes_nonempty by blast+
  then have "0 < length w" and "length w \<le> length s"
    by (auto simp: suffix_length_le)
  then have "length s - length w < length s" by linarith
  then show ?thesis by simp
qed

function TrimLeftSpace :: "string \<Rightarrow> string" where
  "TrimLeftSpace s =
     (case leading_space s of
        None \<Rightarrow> s
      | Some w \<Rightarrow> TrimLeftSpace (drop (length w) s))"
  by pat_completeness auto
termination
  by (relation "measure length") (auto dest: leading_space_shorter)

function TrimRightSpace :: "string \<Rightarrow> string" where
  "TrimRightSpace s =
     (case trailing_space s of
        None \<Rightarrow> s
      | Some w \<Rightarrow> TrimRightSpace (take (length s - length w) s))"
  by pat_completeness auto
termination
  by (relation "measure length") (auto dest: trailing_space_shorter)

declare TrimLeftSpace.simps [simp del] TrimRightSpace.simps [simp del]

definition TrimSpace :: "string \<Rightarrow> string" where
  "TrimSpace s = TrimRightSpace (TrimLeftSpace s)"

section \<open>The decoder\<close>

record Message =
  UnparsedMessage :: string
  Ready :: bool
  ArmedAway :: bool
  ArmedHome :: bool
  BacklightOn :: bool
  ProgrammingMode :: bool
  Beeps :: int
  ZoneBypassed :: bool
  ACPower :: bool
  ChimeEnabled :: bool
  AlarmHasOccured :: bool
  AlarmSounding :: bool
  BatteryLow :: bool
  EntryDelayDisabled :: bool
  Fire :: bool
  SystemIssue :: bool
  PerimeterOnly :: bool
  Mode :: string
  Zone :: string
  RawData :: string
  KeypadMessage :: string

text \<open>\<open>Message{}\<close>, the zero value of the struct.\<close>

definition Message_zero :: Message where
  "Message_zero =
     \<lparr>UnparsedMessage = [], Ready = False, ArmedAway = False, ArmedHome = False,
      BacklightOn = False, ProgrammingMode = False, Beeps = 0, ZoneBypassed = False,
      ACPower = False, ChimeEnabled = False, AlarmHasOccured = False,
      AlarmSounding = False, BatteryLow = False, EntryDelayDisabled = False,
      Fire = False, SystemIssue = False, PerimeterOnly = False, Mode = [], Zone = [],
      RawData = [], KeypadMessage = []\<rparr>"

text \<open>
  ParseMessage returns a pair \<open>(Message, error)\<close>, or panics where an index or a slice is
  out of range. The statements follow the source line by line.
\<close>

definition ParseMessage :: "string \<Rightarrow> (Message \<times> error option) outcome" where
  "ParseMessage s =
     (let m = Message_zero\<lparr>UnparsedMessage := s\<rparr>;
          parts = Split s (CHR '','')
      in if length parts \<noteq> 4
         then Return (Message_zero, Some (Errorf ''expected 4 parts got: %#v'' parts))
         else
           let bits = parts ! 0 in
           obind (index bits 1) (\<lambda>c. let m = m\<lparr>Ready := (c = CHR ''1'')\<rparr> in
           obind (index bits 2) (\<lambda>c. let m = m\<lparr>ArmedAway := (c = CHR ''1'')\<rparr> in
           obind (index bits 3) (\<lambda>c. let m = m\<lparr>ArmedHome := (c = CHR ''1'')\<rparr> in
           obind (index bits 4) (\<lambda>c. let m = m\<lparr>BacklightOn := (c = CHR ''1'')\<rparr> in
           obind (index bits 5) (\<lambda>c. let m = m\<lparr>ProgrammingMode := (c = CHR ''1'')\<rparr> in
           obind (slice bits 6 7) (\<lambda>t.
             case Atoi t of
               (n, Some err) \<Rightarrow> Return (Message_zero, Some err)
             | (n, None) \<Rightarrow> let m = m\<lparr>Beeps := n\<rparr> in
           obind (index bits 7) (\<lambda>c. let m = m\<lparr>ZoneBypassed := (c = CHR ''1'')\<rparr> in
           obind (index bits 8) (\<lambda>c. let m = m\<lparr>ACPower := (c = CHR ''1'')\<rparr> in
           obind (index bits 9) (\<lambda>c. let m = m\<lparr>ChimeEnabled := (c = CHR ''1'')\<rparr> in
           obind (index bits 10) (\<lambda>c. let m = m\<lparr>AlarmHasOccured := (c = CHR ''1'')\<rparr> in
           obind (index bits 11) (\<lambda>c. let m = m\<lparr>AlarmSounding := (c = CHR ''1'')\<rparr> in
           obind (index bits 12) (\<lambda>c. let m = m\<lparr>BatteryLow := (c = CHR ''1'')\<rparr> in
           obind (index bits 13) (\<lambda>c. let m = m\<lparr>EntryDelayDisabled := (c = CHR ''1'')\<rparr> in
           obind (index bits 14) (\<lambda>c. let m = m\<lparr>Fire := (c = CHR ''1'')\<rparr> in
           obind (index bits 15) (\<lambda>c. let m = m\<lparr>SystemIssue := (c = CHR ''1'')\<rparr> in
           obind (index bits 16) (\<lambda>c. let m = m\<lparr>PerimeterOnly := (c = CHR ''1'')\<rparr> in
           obind (slice bits 18 19) (\<lambda>t. let m = m\<lparr>Mode := t\<rparr> in
           let m = m\<lparr>Zone := parts ! 1\<rparr>;
               m = m\<lparr>RawData := parts ! 2\<rparr>;
               msg = parts ! 3
           in obind (slice msg 1 (int (length msg) - 1)) (\<lambda>t.
                Return (m\<lparr>KeypadMessage := TrimSpace t\<rparr>, None))))))))))))))))))))"

text \<open>
  The comments of the struct number its boolean fields by their position in the bit field
  (\<open>1 Indicates if the panel is READY\<close>, \<open>2 Indicates if the panel is ARMED AWAY\<close>, and so
  on to 16; position 6 is the beep count). \<open>flag k\<close> is the field numbered \<open>k\<close>.
\<close>

definition flag :: "nat \<Rightarrow> Message \<Rightarrow> bool" where
  "flag k m =
     (if k = 1 then Ready m
      else if k = 2 then ArmedAway m
      else if k = 3 then ArmedHome m
      else if k = 4 then BacklightOn m
      else if k = 5 then ProgrammingMode m
      else if k = 7 then ZoneBypassed m
      else if k = 8 then ACPower m
      else if k = 9 then ChimeEnabled m
      else if k = 10 then AlarmHasOccured m
      else if k = 11 then AlarmSounding m
      else if k = 12 then BatteryLow m
      else if k = 13 then EntryDelayDisabled m
      else if k = 14 then Fire m
      else if k = 15 then SystemIssue m
      else if k = 16 then PerimeterOnly m
      else False)"

section \<open>The line reader\<close>

subsection \<open>The byte stream\<close>

text \<open>
  The decoder reads from an \<open>io.Reader\<close>. A reader is modelled by the chunks it still has
  to deliver: a call \<open>Read(p)\<close> with \<open>len(p) = n\<close> hands over the next chunk, or its first
  \<open>n\<close> bytes when the chunk is longer than \<open>p\<close>, and returns \<open>(0, io.EOF)\<close> once no chunk
  is left. An empty chunk is a read of zero bytes with no error.
\<close>

type_synonym Reader = "string list"

definition Reader_Read :: "Reader \<Rightarrow> nat \<Rightarrow> string \<times> error option \<times> Reader" where
  "Reader_Read rd n =
     (case rd of
        [] \<Rightarrow> ([], Some EOF, [])
      | c # cs \<Rightarrow>
          (if length c \<le> n then (c, None, cs) else (take n c, None, drop n c # cs)))"

subsection \<open>bufio.Scanner with the split function ScanLines\<close>

definition maxTokenSize :: nat where
  "maxTokenSize = 64 * 1024"

definition startBufSize :: nat where
  "startBufSize = 4096"

definition maxConsecutiveEmptyReads :: nat where
  "maxConsecutiveEmptyReads = 100"

text \<open>
  The state of a scanner: the length of its buffer, the offset \<open>start\<close>, the bytes
  \<open>buf[start:end]\<close> that are read and not yet consumed, the last token and the sticky
  error. The reader it scans is kept beside it, in the decoder.
\<close>

record Scanner =
  scan_buf_len :: nat
  scan_start :: nat
  scan_data :: string
  scan_token :: "string option"
  scan_err :: "error option"

definition NewScanner :: Scanner where
  "NewScanner =
     \<lparr>scan_buf_len = 0, scan_start = 0, scan_data = [], scan_token = None,
      scan_err = None\<rparr>"

definition dropCR :: "string \<Rightarrow> string" where
  "dropCR d = (if d \<noteq> [] \<and> last d = CHR 0x0D then butlast d else d)"

text \<open>ScanLines returns \<open>(advance, token)\<close>; its error is always nil.\<close>

definition ScanLines :: "string \<Rightarrow> bool \<Rightarrow> nat \<times> string option" where
  "ScanLines d atEOF =
     (if atEOF \<and> d = [] then (0, None)
      else case IndexByte d (CHR 0x0A) of
             Some i \<Rightarrow> (i + 1, Some (dropCR (take i d)))
           | None \<Rightarrow> (if atEOF then (length d, Some (dropCR d)) else (0, None)))"

text \<open>
  The inner loop of Scan: read until some bytes arrive, an error arrives, or more than
  \<open>maxConsecutiveEmptyReads\<close> reads in a row brought nothing.
\<close>

function read_loop :: "nat \<Rightarrow> Reader \<Rightarrow> nat \<Rightarrow> string \<times> error option \<times> Reader" where
  "read_loop loop rd room =
     (case Reader_Read rd room of
        (bs, Some e, rd') \<Rightarrow> (bs, Some e, rd')
      | (bs, None, rd') \<Rightarrow>
          (if bs \<noteq> [] then (bs, None, rd')
           else if maxConsecutiveEmptyReads < loop + 1 then ([], Some ErrNoProgress, rd')
           else read_loop (loop + 1) rd' room))"
  by pat_completeness auto
termination
  by (relation "measure (\<lambda>(loop, rd, room). maxConsecutiveEmptyReads + 1 - loop)") auto

declare read_loop.simps [simp del]

text \<open>
  The outer loop of Scan, statement by statement. First the split function is tried on
  what is already held: it is called when bytes are pending or the error is set, and
  the result says whether it returned a token. ScanLines never advances past the pending
  bytes, never returns a token without advancing and never returns an error, so the
  checks of \<open>advance\<close>, the counter of empty tokens and the final-token exit have no
  branch here.
\<close>

definition scan_split :: "Scanner \<Rightarrow> bool \<times> Scanner" where
  "scan_split s =
     (if scan_data s \<noteq> [] \<or> scan_err s \<noteq> None then
        (let (advance, tok) = ScanLines (scan_data s) (scan_err s \<noteq> None)
         in (tok \<noteq> None,
             s\<lparr>scan_start := scan_start s + advance,
               scan_data := drop advance (scan_data s), scan_token := tok\<rparr>))
      else (False, s))"

text \<open>
  Before reading, the pending bytes are shifted to the beginning of the buffer if there
  is lots of empty space or space is needed, and a full buffer is doubled, up to
  \<open>maxTokenSize\<close> (which is below half of the largest int).
\<close>

definition scan_shift :: "Scanner \<Rightarrow> Scanner" where
  "scan_shift s =
     (if 0 < scan_start s \<and>
         (scan_start s + length (scan_data s) = scan_buf_len s \<or>
          scan_buf_len s div 2 < scan_start s)
      then s\<lparr>scan_start := 0\<rparr> else s)"

definition scan_full :: "Scanner \<Rightarrow> bool" where
  "scan_full s \<longleftrightarrow> scan_start s + length (scan_data s) = scan_buf_len s"

definition scan_grow :: "Scanner \<Rightarrow> Scanner" where
  "scan_grow s =
     s\<lparr>scan_buf_len :=
         min (if scan_buf_len s * 2 = 0 then startBufSize else scan_buf_len s * 2)
           maxTokenSize,
       scan_start := 0\<rparr>"

definition scan_fill :: "Reader \<Rightarrow> Scanner \<Rightarrow> Reader \<times> Scanner" where
  "scan_fill rd s =
     (let (bs, e, rd') =
            read_loop 0 rd (scan_buf_len s - (scan_start s + length (scan_data s)))
      in (rd', s\<lparr>scan_data := scan_data s @ bs, scan_err := e\<rparr>))"

text \<open>
  One round of the loop: \<open>Inl\<close> is a return, with the result of Scan and the new state;
  \<open>Inr\<close> goes round again.
\<close>

definition scan_round :: "Reader \<Rightarrow> Scanner \<Rightarrow> (bool \<times> Reader \<times> Scanner) + (Reader \<times> Scanner)" where
  "scan_round rd s =
     (case scan_split s of
        (True, s1) \<Rightarrow> Inl (True, rd, s1)
      | (False, s1) \<Rightarrow>
          (if scan_err s1 \<noteq> None
           then Inl (False, rd, s1\<lparr>scan_start := 0, scan_data := []\<rparr>)
           else
             let s2 = scan_shift s1
             in if scan_full s2 \<and> maxTokenSize \<le> scan_buf_len s2
                then Inl (False, rd, s2\<lparr>scan_err := Some ErrTooLong\<rparr>)
                else Inr (scan_fill rd (if scan_full s2 then scan_grow s2 else s2))))"

text \<open>
  Every round that goes on has either set the error, and the next round returns, or
  taken at least one byte from the reader.
\<close>

definition scan_measure :: "Reader \<times> Scanner \<Rightarrow> nat" where
  "scan_measure = (\<lambda>(rd, s).
     case scan_err s of None \<Rightarrow> 1 + sum_list (map length rd) | Some e \<Rightarrow> 0)"

lemma Reader_Read_weight:
  "Reader_Read rd n = (bs, e, rd') \<Longrightarrow>
   sum_list (map length rd') + length bs = sum_list (map length rd)"
  by (auto simp: Reader_Read_def split: list.splits if_splits)

lemma read_loop_progress:
  "read_loop loop rd room = (bs, None, rd') \<Longrightarrow>
   sum_list (map length rd') < sum_list (map length rd)"
proof (induction loop rd room rule: read_loop.induct)
  case (1 loop rd room)
  obtain bs0 e0 rd0 where r: "Reader_Read rd room = (bs0, e0, rd0)"
    by (cases "Reader_Read rd room") auto
  note w = Reader_Read_weight [OF r]
  show ?case
  proof (cases e0)
    case (Some e)
    with "1.prems" r show ?thesis by (simp add: read_loop.simps [of loop rd room])
  next
    case None
    show ?thesis
    proof (cases "bs0 = []")
      case False
      with "1.prems" r None have "bs = bs0" and "rd' = rd0"
        by (simp_all add: read_loop.simps [of loop rd room])
      moreover from False have "0 < length bs0" by simp
      with w have "sum_list (map length rd0) < sum_list (map length rd)" by linarith
      ultimately show ?thesis by simp
    next
      case True
      show ?thesis
      proof (cases "maxConsecutiveEmptyReads < loop + 1")
        case over: True
        with "1.prems" r None True show ?thesis
          by (simp add: read_loop.simps [of loop rd room])
      next
        case under: False
        with "1.prems" r None True
        have "read_loop (loop + 1) rd0 room = (bs, None, rd')"
          by (simp add: read_loop.simps [of loop rd room])
        with "1.IH" r None True under
        have "sum_list (map length rd') < sum_list (map length rd0)" by simp
        with w True show ?thesis by simp
      qed
    qed
  qed
qed

lemma scan_split_err: "scan_err (snd (scan_split s)) = scan_err s"
  by (simp add: scan_split_def split: prod.splits)

lemma scan_fill_decreases:
  assumes "scan_err s = None" and "scan_fill rd s = (rd', s')"
  shows "scan_measure (rd', s') < scan_measure (rd, s)"
proof -
  obtain bs e where r:
    "read_loop 0 rd (scan_buf_len s - (scan_start s + length (scan_data s))) = (bs, e, rd')"
    and e: "scan_err s' = e"
    using assms(2) by (auto simp: scan_fill_def split: prod.splits)
  show ?thesis
  proof (cases e)
    case None
    with r have "sum_list (map length rd') < sum_list (map length rd)"
      using read_loop_progress by blast
    with None e assms(1) show ?thesis by (simp add: scan_measure_def)
  next
    case (Some x)
    with e assms(1) show ?thesis by (simp add: scan_measure_def)
  qed
qed

lemma scan_round_decreases:
  assumes "scan_round rd s = Inr (rd', s')"
  shows "scan_measure (rd', s') < scan_measure (rd, s)"
proof -
  obtain found s1 where sp: "scan_split s = (found, s1)"
    by (cases "scan_split s") auto
  with scan_split_err [of s] have e1: "scan_err s1 = scan_err s" by simp
  from assms sp have none: "scan_err s1 = None"
    by (cases found) (auto simp: scan_round_def split: if_splits)
  define s3 where
    "s3 = (if scan_full (scan_shift s1) then scan_grow (scan_shift s1) else scan_shift s1)"
  from assms sp none have "scan_fill rd s3 = (rd', s')"
    by (cases found) (simp_all add: scan_round_def Let_def s3_def split: if_splits)
  moreover have e3: "scan_err s3 = None"
    using none by (simp add: s3_def scan_shift_def scan_grow_def)
  ultimately have "scan_measure (rd', s') < scan_measure (rd, s3)"
    using scan_fill_decreases by blast
  moreover have "scan_measure (rd, s3) = scan_measure (rd, s)"
    using e3 none e1 by (simp add: scan_measure_def)
  ultimately show ?thesis by simp
qed

function Scan :: "Reader \<Rightarrow> Scanner \<Rightarrow> bool \<times> Reader \<times> Scanner" where
  "Scan rd s =
     (case scan_round rd s of
        Inl result \<Rightarrow> result
      | Inr (rd', s') \<Rightarrow> Scan rd' s')"
  by pat_completeness auto
termination
  by (relation "measure scan_measure") (auto dest: scan_round_decreases)

declare Scan.simps [simp del]

definition Err :: "Scanner \<Rightarrow> error option" where
  "Err s = (if scan_err s = Some EOF then None else scan_err s)"

definition Text :: "Scanner \<Rightarrow> string" where
  "Text s = (case scan_token s of None \<Rightarrow> [] | Some t \<Rightarrow> t)"

subsection \<open>AlarmDecoder\<close>

text \<open>
  The decoder holds the stream and a scanner over the same stream. Read returns its pair
  \<open>(Message, error)\<close> (or panics, where ParseMessage does) and the decoder in its new
  state.
\<close>

record AlarmDecoder =
  rw :: Reader
  scanner :: Scanner

definition New :: "Reader \<Rightarrow> AlarmDecoder" where
  "New stream = \<lparr>rw = stream, scanner = NewScanner\<rparr>"

definition Read :: "AlarmDecoder \<Rightarrow> (Message \<times> error option) outcome \<times> AlarmDecoder" where
  "Read ad =
     (let (hasMsg, rd, sc) = Scan (rw ad) (scanner ad);
          ad' = \<lparr>rw = rd, scanner = sc\<rparr>
      in case Err sc of
           Some e \<Rightarrow> (Return (Message_zero, Some e), ad')
         | None \<Rightarrow>
             (if hasMsg then (ParseMessage (Text sc), ad')
              else (Return (Message_zero, Some EOF), ad')))"

section \<open>Facts about the library functions\<close>

lemma Split_Nil: "Split [] c = [[]]"
  by (simp add: Split.simps)

lemma Split_nonempty: "Split s c \<noteq> []"
  by (cases "IndexByte s c") (simp_all add: Split.simps [of s])

lemma Split_Cons:
  "Split (x # xs) c =
     (if x = c then [] # Split xs c
      else (case Split xs c of [] \<Rightarrow> [[x]] | p # ps \<Rightarrow> (x # p) # ps))"
proof (cases "x = c")
  case True
  have "Split (c # xs) c = [] # Split xs c"
    by (simp add: Split.simps [of "c # xs" c])
  with True show ?thesis by simp
next
  case False
  then show ?thesis
    by (cases "IndexByte xs c")
      (simp_all add: Split.simps [of "x # xs" c] Split.simps [of xs c])
qed

lemma of_char_range: "0 \<le> (of_char c :: int) \<and> (of_char c :: int) < 256"
proof -
  have "(of_char c :: int) mod 256 = of_char c" by (rule of_char_mod_256)
  moreover have "0 \<le> (of_char c :: int) mod 256" by (rule pos_mod_sign) simp
  moreover have "(of_char c :: int) mod 256 < 256" by (rule pos_mod_bound) simp
  ultimately show ?thesis by simp
qed

lemma digit_iff:
  "c \<in> set ''0123456789'' \<longleftrightarrow> 48 \<le> (of_char c :: int) \<and> (of_char c :: int) \<le> 57"
proof
  assume "c \<in> set ''0123456789''"
  then show "48 \<le> (of_char c :: int) \<and> (of_char c :: int) \<le> 57" by auto
next
  assume a: "48 \<le> (of_char c :: int) \<and> (of_char c :: int) \<le> 57"
  then have "(of_char c :: int) \<in> of_char ` set ''0123456789''" by simp arith
  then obtain d where "d \<in> set ''0123456789''" and "(of_char c :: int) = of_char d"
    by blast
  then show "c \<in> set ''0123456789''" by (simp only: of_char_eq_iff)
qed

lemma byte_sub:
  "((of_char c :: int) - 48) mod 256 \<le> 9 \<longleftrightarrow> 48 \<le> (of_char c :: int) \<and> (of_char c :: int) \<le> 57"
proof (cases "48 \<le> (of_char c :: int)")
  case True
  then have "((of_char c :: int) - 48) mod 256 = of_char c - 48"
    using of_char_range [of c] by simp
  then show ?thesis using True by simp
next
  case False
  have "((of_char c :: int) - 48) mod 256 = (of_char c - 48 + 256) mod 256"
    by (simp only: mod_add_self2)
  also have "\<dots> = of_char c + 208"
    using False of_char_range [of c] by simp
  finally show ?thesis using False of_char_range [of c] by simp
qed

lemma Atoi_single:
  "Atoi [c] =
     (if c \<in> set ''0123456789'' then (of_char c - 48, None)
      else (0, Some (NumError ''Atoi'' [c] ErrSyntax)))"
proof (cases "c \<in> set ''0123456789''")
  case True
  then show ?thesis by (auto simp: Atoi_def)
next
  case False
  then have "\<not> ((of_char c :: int) - 48) mod 256 \<le> 9"
    by (simp only: byte_sub digit_iff not_False_eq_True)
  then show ?thesis using False
    by (simp add: Atoi_def syntaxError_def fnAtoi_def Let_def)
qed

lemma slice_single: "0 \<le> i \<Longrightarrow> i < int (length s) \<Longrightarrow> slice s i (i + 1) = Return [s ! nat i]"
  by (simp add: slice_def take_Suc_conv_app_nth)

lemma ParseMessage_long:
  assumes parts: "Split s (CHR '','') = [bits, zone, raw, msg]"
    and len: "19 \<le> length bits"
  shows "ParseMessage s =
    (if bits ! 6 \<in> set ''0123456789'' then
       (if 2 \<le> length msg then
          Return (\<lparr>UnparsedMessage = s,
                   Ready = (bits ! 1 = CHR ''1''),
                   ArmedAway = (bits ! 2 = CHR ''1''),
                   ArmedHome = (bits ! 3 = CHR ''1''),
                   BacklightOn = (bits ! 4 = CHR ''1''),
                   ProgrammingMode = (bits ! 5 = CHR ''1''),
                   Beeps = of_char (bits ! 6) - 48,
                   ZoneBypassed = (bits ! 7 = CHR ''1''),
                   ACPower = (bits ! 8 = CHR ''1''),
                   ChimeEnabled = (bits ! 9 = CHR ''1''),
                   AlarmHasOccured = (bits ! 10 = CHR ''1''),
                   AlarmSounding = (bits ! 11 = CHR ''1''),
                   BatteryLow = (bits ! 12 = CHR ''1''),
                   EntryDelayDisabled = (bits ! 13 = CHR ''1''),
                   Fire = (bits ! 14 = CHR ''1''),
                   SystemIssue = (bits ! 15 = CHR ''1''),
                   PerimeterOnly = (bits ! 16 = CHR ''1''),
                   Mode = [bits ! 18],
                   Zone = zone,
                   RawData = raw,
                   KeypadMessage = TrimSpace (butlast (tl msg))\<rparr>, None)
        else Panic (if msg = [] then BoundsSliceAlen (- 1) 0 else BoundsSliceB 1 0))
     else Return (Message_zero, Some (NumError ''Atoi'' [bits ! 6] ErrSyntax)))"
proof -
  have s6: "slice bits 6 7 = Return [bits ! 6]"
    using len slice_single [of 6 bits] by simp
  have s18: "slice bits 18 19 = Return [bits ! 18]"
    using len slice_single [of 18 bits] by simp
  have ix: "\<And>i. 0 \<le> i \<Longrightarrow> i < 19 \<Longrightarrow> index bits i = Return (bits ! nat i)"
    using len by (simp add: index_def)
  have sm: "slice msg 1 (int (length msg) - 1) =
      (if 2 \<le> length msg then Return (butlast (tl msg))
       else Panic (if msg = [] then BoundsSliceAlen (- 1) 0 else BoundsSliceB 1 0))"
  proof (cases "2 \<le> length msg")
    case True
    then have "nat (int (length msg) - 1 - 1) = length (tl msg) - 1" by simp
    moreover from True have "msg \<noteq> []" by auto
    ultimately show ?thesis using True
      by (simp add: slice_def butlast_conv_take drop_Suc)
  next
    case False
    then have "length msg = 0 \<or> length msg = 1" by arith
    then show ?thesis by (auto simp: slice_def)
  qed
  show ?thesis
    unfolding ParseMessage_def parts
    by (simp add: Let_def obind_def s6 s18 ix sm Atoi_single Message_zero_def)
qed

lemma ParseMessage_short:
  assumes parts: "Split s (CHR '','') = [bits, zone, raw, msg]"
    and len: "length bits < 19"
  shows "ParseMessage s =
    (if 7 \<le> length bits \<and> bits ! 6 \<notin> set ''0123456789''
     then Return (Message_zero, Some (NumError ''Atoi'' [bits ! 6] ErrSyntax))
     else Panic (if length bits = 6 then BoundsSliceAlen 7 6
                 else if 17 \<le> length bits then BoundsSliceAlen 19 (int (length bits))
                 else BoundsIndex (max 1 (int (length bits))) (int (length bits))))"
proof -
  have s6: "7 \<le> length bits \<Longrightarrow> slice bits 6 7 = Return [bits ! 6]"
    using slice_single [of 6 bits] by simp
  have n6: "length bits = 6 \<Longrightarrow> slice bits 6 7 = Panic (BoundsSliceAlen 7 6)"
    by (simp add: slice_def)
  have s18: "slice bits 18 19 = Panic (BoundsSliceAlen 19 (int (length bits)))"
    using len by (simp add: slice_def)
  from len have "length bits = 0 \<or> length bits = 1 \<or> length bits = 2 \<or> length bits = 3
      \<or> length bits = 4 \<or> length bits = 5 \<or> length bits = 6 \<or> length bits = 7
      \<or> length bits = 8 \<or> length bits = 9 \<or> length bits = 10 \<or> length bits = 11
      \<or> length bits = 12 \<or> length bits = 13 \<or> length bits = 14 \<or> length bits = 15
      \<or> length bits = 16 \<or> length bits = 17 \<or> length bits = 18"
    by arith
  then show ?thesis
    unfolding ParseMessage_def parts
    by (elim disjE)
      (simp_all add: Let_def obind_def index_def s6 n6 s18 Atoi_single)
qed

lemma TrimLeftSpace_None: "leading_space s = None \<Longrightarrow> TrimLeftSpace s = s"
  by (simp add: TrimLeftSpace.simps [of s])

lemma TrimLeftSpace_Some:
  "leading_space s = Some w \<Longrightarrow> TrimLeftSpace s = TrimLeftSpace (drop (length w) s)"
  by (simp add: TrimLeftSpace.simps [of s])

lemma TrimRightSpace_None: "trailing_space s = None \<Longrightarrow> TrimRightSpace s = s"
  by (simp add: TrimRightSpace.simps [of s])

lemma TrimRightSpace_Some:
  "trailing_space s = Some w \<Longrightarrow>
   TrimRightSpace s = TrimRightSpace (take (length s - length w) s)"
  by (simp add: TrimRightSpace.simps [of s])

lemma TrimLeftSpace_decomp:
  "\<exists>ws. set ws \<subseteq> set space_runes \<and> s = concat ws @ TrimLeftSpace s"
proof (induction s rule: TrimLeftSpace.induct)
  case (1 s)
  show ?case
  proof (cases "leading_space s")
    case None
    then have "set [] \<subseteq> set space_runes \<and> s = concat [] @ TrimLeftSpace s"
      by (simp add: TrimLeftSpace_None)
    then show ?thesis by blast
  next
    case (Some w)
    from "1" [OF Some] obtain ws where ws: "set ws \<subseteq> set space_runes"
      and rest: "drop (length w) s = concat ws @ TrimLeftSpace (drop (length w) s)"
      by blast
    from Some have w: "w \<in> set space_runes" and "prefix w s"
      using leading_space_Some by blast+
    then have "s = w @ drop (length w) s"
      by (auto simp: prefix_def)
    with rest have "s = concat (w # ws) @ TrimLeftSpace s"
      by (simp add: TrimLeftSpace_Some [OF Some])
    moreover have "set (w # ws) \<subseteq> set space_runes" using w ws by simp
    ultimately show ?thesis by blast
  qed
qed

lemma TrimRightSpace_decomp:
  "\<exists>ws. set ws \<subseteq> set space_runes \<and> s = TrimRightSpace s @ concat ws"
proof (induction s rule: TrimRightSpace.induct)
  case (1 s)
  show ?case
  proof (cases "trailing_space s")
    case None
    then have "set [] \<subseteq> set space_runes \<and> s = TrimRightSpace s @ concat []"
      by (simp add: TrimRightSpace_None)
    then show ?thesis by blast
  next
    case (Some w)
    from "1" [OF Some] obtain ws where ws: "set ws \<subseteq> set space_runes"
      and rest: "take (length s - length w) s =
        TrimRightSpace (take (length s - length w) s) @ concat ws"
      by blast
    from Some have w: "w \<in> set space_runes" and "suffix w s"
      using trailing_space_Some by blast+
    then obtain pre where pre: "s = pre @ w"
      by (auto simp: suffix_def)
    then have tk: "take (length s - length w) s = pre" by simp
    have "TrimRightSpace s = TrimRightSpace pre"
      using TrimRightSpace_Some [OF Some] tk by simp
    moreover have "pre = TrimRightSpace pre @ concat ws"
      using rest tk by simp
    ultimately have "s = TrimRightSpace s @ concat (ws @ [w])"
      using pre by simp
    moreover have "set (ws @ [w]) \<subseteq> set space_runes" using w ws by simp
    ultimately show ?thesis by blast
  qed
qed

lemma TrimLeftSpace_no_leading: "leading_space (TrimLeftSpace s) = None"
proof (induction s rule: TrimLeftSpace.induct)
  case (1 s)
  show ?case
  proof (cases "leading_space s")
    case None
    then show ?thesis by (simp add: TrimLeftSpace_None)
  next
    case (Some w)
    with "1" show ?thesis by (simp add: TrimLeftSpace_Some)
  qed
qed

lemma TrimRightSpace_no_trailing: "trailing_space (TrimRightSpace s) = None"
proof (induction s rule: TrimRightSpace.induct)
  case (1 s)
  show ?case
  proof (cases "trailing_space s")
    case None
    then show ?thesis by (simp add: TrimRightSpace_None)
  next
    case (Some w)
    with "1" show ?thesis by (simp add: TrimRightSpace_Some)
  qed
qed

lemma leading_space_of_prefix:
  assumes "leading_space u = None" and "prefix v u"
  shows "leading_space v = None"
proof -
  from assms(1) have "\<forall>w \<in> set space_runes. \<not> prefix w u"
    by (simp add: leading_space_def find_None_iff)
  with assms(2) have "\<forall>w \<in> set space_runes. \<not> prefix w v"
    using prefix_order.order_trans by blast
  then show ?thesis by (simp add: leading_space_def find_None_iff)
qed

lemma TrimSpace_spec:
  "\<exists>l r. (\<exists>ws. set ws \<subseteq> set space_runes \<and> l = concat ws) \<and>
         (\<exists>ws. set ws \<subseteq> set space_runes \<and> r = concat ws) \<and>
         s = l @ TrimSpace s @ r \<and>
         leading_space (TrimSpace s) = None \<and> trailing_space (TrimSpace s) = None"
proof -
  obtain ls where ls: "set ls \<subseteq> set space_runes" "s = concat ls @ TrimLeftSpace s"
    using TrimLeftSpace_decomp by blast
  obtain rs where rs: "set rs \<subseteq> set space_runes"
    "TrimLeftSpace s = TrimSpace s @ concat rs"
    unfolding TrimSpace_def using TrimRightSpace_decomp by blast
  from rs(2) have "prefix (TrimSpace s) (TrimLeftSpace s)"
    by (metis prefixI)
  then have "leading_space (TrimSpace s) = None"
    using TrimLeftSpace_no_leading leading_space_of_prefix by blast
  moreover have "trailing_space (TrimSpace s) = None"
    by (simp add: TrimSpace_def TrimRightSpace_no_trailing)
  moreover from ls(2) rs(2) have "s = concat ls @ TrimSpace s @ concat rs" by simp
  ultimately show ?thesis using ls(1) rs(1) by blast
qed

lemmas trim_eval =
  TrimSpace_def TrimLeftSpace.simps TrimRightSpace.simps leading_space_def
  trailing_space_def space_runes_def suffix_to_prefix

subsection \<open>Facts about the scanner\<close>

lemma IndexByte_None: "c \<notin> set s \<Longrightarrow> IndexByte s c = None"
  by (induction s) auto

lemma IndexByte_first: "c \<notin> set l \<Longrightarrow> IndexByte (l @ c # r) c = Some (length l)"
  by (induction l) auto

lemma ScanLines_line:
  "CHR 0x0A \<notin> set l \<Longrightarrow> ScanLines (l @ CHR 0x0A # r) atEOF = (length l + 1, Some (dropCR l))"
  by (simp add: ScanLines_def IndexByte_first)

lemma ScanLines_more: "CHR 0x0A \<notin> set d \<Longrightarrow> ScanLines d False = (0, None)"
  by (simp add: ScanLines_def IndexByte_None)

lemma read_loop_eof: "read_loop n [] room = ([], Some EOF, [])"
  by (simp add: read_loop.simps [of n "[]" room] Reader_Read_def)

lemma read_loop_chunk:
  "c \<noteq> [] \<Longrightarrow> length c \<le> room \<Longrightarrow> read_loop n (c # cs) room = (c, None, cs)"
  by (simp add: read_loop.simps [of n "c # cs" room] Reader_Read_def)

lemma read_loop_empty_chunk:
  "n < maxConsecutiveEmptyReads \<Longrightarrow> read_loop n ([] # cs) room = read_loop (n + 1) cs room"
  by (simp add: read_loop.simps [of n "[] # cs" room] Reader_Read_def)

lemma scan_fill_chunk:
  assumes "c \<noteq> []"
    and "scan_start s + length (scan_data s) + length c \<le> scan_buf_len s"
  shows "scan_fill (c # cs) s = (cs, s\<lparr>scan_data := scan_data s @ c, scan_err := None\<rparr>)"
  using assms by (simp add: scan_fill_def read_loop_chunk)

lemma scan_fill_skip:
  assumes "c \<noteq> []"
    and "scan_start s + length (scan_data s) + length c \<le> scan_buf_len s"
  shows "scan_fill ([] # c # cs) s =
    (cs, s\<lparr>scan_data := scan_data s @ c, scan_err := None\<rparr>)"
  using assms
  by (simp add: scan_fill_def read_loop_empty_chunk read_loop_chunk
      maxConsecutiveEmptyReads_def)

lemma scan_fill_eof:
  assumes "rd = [] \<or> rd = [[]]"
  shows "scan_fill rd s = ([], s\<lparr>scan_data := scan_data s, scan_err := Some EOF\<rparr>)"
  using assms
  by (auto simp: scan_fill_def read_loop_empty_chunk read_loop_eof
      maxConsecutiveEmptyReads_def)

lemma scan_round_token:
  assumes "scan_data s = l @ [CHR 0x0A]" and "CHR 0x0A \<notin> set l"
  shows "scan_round rd s =
    Inl (True, rd, s\<lparr>scan_start := scan_start s + (length l + 1), scan_data := [],
                     scan_token := Some (dropCR l)\<rparr>)"
  using assms by (simp add: scan_round_def scan_split_def ScanLines_line)

lemma scan_round_read:
  assumes "scan_err s = None" and "CHR 0x0A \<notin> set (scan_data s)"
    and "scan_start s = 0" and "length (scan_data s) < 4096"
    and "scan_buf_len s = 4096 \<or> (scan_buf_len s = 0 \<and> scan_data s = [])"
  shows "\<exists>s1. scan_round rd s = Inr (scan_fill rd s1) \<and> scan_err s1 = None \<and>
           scan_data s1 = scan_data s \<and> scan_start s1 = 0 \<and> scan_buf_len s1 = 4096"
proof -
  define s1 where "s1 = snd (scan_split s)"
  have sp: "scan_split s = (False, s1)" and f: "scan_err s1 = None"
    "scan_data s1 = scan_data s" "scan_start s1 = 0" "scan_buf_len s1 = scan_buf_len s"
    using assms(1,2,3) by (simp_all add: s1_def scan_split_def ScanLines_more)
  have sh: "scan_shift s1 = s1" using f by (simp add: scan_shift_def)
  show ?thesis
  proof (cases "scan_buf_len s = 4096")
    case True
    with f assms(4) have "\<not> scan_full s1" by (simp add: scan_full_def)
    with sp sh f True have "scan_round rd s = Inr (scan_fill rd s1)"
      by (simp add: scan_round_def)
    with f True show ?thesis by (intro exI [of _ s1]) simp
  next
    case False
    with assms(5) have z: "scan_buf_len s = 0" "scan_data s = []" by simp_all
    with f have full: "scan_full s1" by (simp add: scan_full_def)
    have "scan_round rd s = Inr (scan_fill rd (scan_grow s1))"
      using sp sh f z full by (simp add: scan_round_def maxTokenSize_def)
    moreover have "scan_buf_len (scan_grow s1) = 4096"
      using f z by (simp add: scan_grow_def startBufSize_def maxTokenSize_def)
    ultimately show ?thesis
      using f by (intro exI [of _ "scan_grow s1"]) (simp add: scan_grow_def)
  qed
qed

text \<open>The state of a scanner that has just returned the line \<open>l\<close> of a stream that ends there.\<close>

lemma Scan_one_chunk:
  assumes "CHR 0x0A \<notin> set l" and "length l < 4096"
  shows "\<exists>rd s. Scan [l @ [CHR 0x0A]] NewScanner = (True, rd, s) \<and>
           scan_token s = Some (dropCR l) \<and> scan_err s = None \<and> scan_data s = [] \<and>
           scan_buf_len s = 4096 \<and> scan_start s = length l + 1 \<and> (rd = [] \<or> rd = [[]])"
proof -
  obtain s1 where r1: "scan_round [l @ [CHR 0x0A]] NewScanner = Inr (scan_fill [l @ [CHR 0x0A]] s1)"
    and s1: "scan_err s1 = None" "scan_data s1 = []" "scan_start s1 = 0" "scan_buf_len s1 = 4096"
    using scan_round_read [of NewScanner "[l @ [CHR 0x0A]]"] by (auto simp: NewScanner_def)
  define s2 where "s2 = s1\<lparr>scan_data := scan_data s1 @ (l @ [CHR 0x0A]), scan_err := None\<rparr>"
  have f1: "scan_fill [l @ [CHR 0x0A]] s1 = ([], s2)"
    unfolding s2_def using s1 assms(2) by (intro scan_fill_chunk) simp_all
  have d2: "scan_data s2 = l @ [CHR 0x0A]" using s1 by (simp add: s2_def)
  note r2 = scan_round_token [OF d2 assms(1), of "[]"]
  have "Scan [l @ [CHR 0x0A]] NewScanner = Scan [] s2"
    using r1 f1 by (simp add: Scan.simps [of "[l @ [CHR 0x0A]]" NewScanner])
  also have "\<dots> = (True, [], s2\<lparr>scan_start := scan_start s2 + (length l + 1),
      scan_data := [], scan_token := Some (dropCR l)\<rparr>)"
    using r2 by (simp add: Scan.simps [of "[]" s2])
  finally show ?thesis using s1 by (simp add: s2_def)
qed

lemma Scan_two_chunks:
  assumes nl: "CHR 0x0A \<notin> set l" and len: "length l < 4096"
    and ab: "a @ b = l @ [CHR 0x0A]"
  shows "\<exists>rd s. Scan [a, b] NewScanner = (True, rd, s) \<and>
           scan_token s = Some (dropCR l) \<and> scan_err s = None \<and> scan_data s = [] \<and>
           scan_buf_len s = 4096 \<and> scan_start s = length l + 1 \<and> (rd = [] \<or> rd = [[]])"
proof -
  obtain s1 where r1: "scan_round [a, b] NewScanner = Inr (scan_fill [a, b] s1)"
    and s1: "scan_err s1 = None" "scan_data s1 = []" "scan_start s1 = 0" "scan_buf_len s1 = 4096"
    using scan_round_read [of NewScanner "[a, b]"] by (auto simp: NewScanner_def)
  have step1: "Scan [a, b] NewScanner = Scan (fst (scan_fill [a, b] s1)) (snd (scan_fill [a, b] s1))"
    using r1 by (simp add: Scan.simps [of "[a, b]" NewScanner] split: prod.splits)
  have lab: "length a + length b = length l + 1"
    using arg_cong [OF ab, of length] by simp
  have fin: "\<exists>rd s. Scan rd0 s0 = (True, rd, s) \<and>
           scan_token s = Some (dropCR l) \<and> scan_err s = None \<and> scan_data s = [] \<and>
           scan_buf_len s = 4096 \<and> scan_start s = length l + 1 \<and> (rd = [] \<or> rd = [[]])"
    if "scan_data s0 = l @ [CHR 0x0A]" "scan_err s0 = None" "scan_start s0 = 0"
      "scan_buf_len s0 = 4096" "rd0 = [] \<or> rd0 = [[]]" for rd0 s0
    using scan_round_token [OF that(1) nl, of rd0] that
    by (simp add: Scan.simps [of rd0 s0])
  consider (first_empty) "a = []" | (second_empty) "a \<noteq> []" "b = []" | (both) "a \<noteq> []" "b \<noteq> []"
    by blast
  then show ?thesis
  proof cases
    case first_empty
    with ab have b: "b = l @ [CHR 0x0A]" by simp
    have "scan_fill [a, b] s1 = ([], s1\<lparr>scan_data := scan_data s1 @ b, scan_err := None\<rparr>)"
      unfolding first_empty using s1 b len by (intro scan_fill_skip) simp_all
    with step1 have "Scan [a, b] NewScanner =
        Scan [] (s1\<lparr>scan_data := scan_data s1 @ b, scan_err := None\<rparr>)"
      by simp
    moreover have "\<exists>rd s. Scan [] (s1\<lparr>scan_data := scan_data s1 @ b, scan_err := None\<rparr>) =
           (True, rd, s) \<and>
           scan_token s = Some (dropCR l) \<and> scan_err s = None \<and> scan_data s = [] \<and>
           scan_buf_len s = 4096 \<and> scan_start s = length l + 1 \<and> (rd = [] \<or> rd = [[]])"
      using s1 b by (intro fin) simp_all
    ultimately show ?thesis by simp
  next
    case second_empty
    with ab have a: "a = l @ [CHR 0x0A]" by simp
    have "scan_fill [a, b] s1 = ([b], s1\<lparr>scan_data := scan_data s1 @ a, scan_err := None\<rparr>)"
      using s1 a len by (intro scan_fill_chunk) simp_all
    with step1 have "Scan [a, b] NewScanner =
        Scan [[]] (s1\<lparr>scan_data := scan_data s1 @ a, scan_err := None\<rparr>)"
      using second_empty by simp
    moreover have "\<exists>rd s. Scan [[]] (s1\<lparr>scan_data := scan_data s1 @ a, scan_err := None\<rparr>) =
           (True, rd, s) \<and>
           scan_token s = Some (dropCR l) \<and> scan_err s = None \<and> scan_data s = [] \<and>
           scan_buf_len s = 4096 \<and> scan_start s = length l + 1 \<and> (rd = [] \<or> rd = [[]])"
      using s1 a by (intro fin) simp_all
    ultimately show ?thesis by simp
  next
    case both
    from ab both(2) have "a = take (length a) l" and la: "length a \<le> length l"
      by (auto simp: append_eq_append_conv2 append_eq_Cons_conv Cons_eq_append_conv)
    then have na: "CHR 0x0A \<notin> set a"
      using nl by (metis in_set_takeD)
    define s2 where "s2 = s1\<lparr>scan_data := scan_data s1 @ a, scan_err := None\<rparr>"
    have f1: "scan_fill [a, b] s1 = ([b], s2)"
      unfolding s2_def using s1 both(1) la len by (intro scan_fill_chunk) simp_all
    have s2: "scan_err s2 = None" "scan_data s2 = a" "scan_start s2 = 0" "scan_buf_len s2 = 4096"
      using s1 by (simp_all add: s2_def)
    obtain s3 where r2: "scan_round [b] s2 = Inr (scan_fill [b] s3)"
      and s3: "scan_err s3 = None" "scan_data s3 = a" "scan_start s3 = 0" "scan_buf_len s3 = 4096"
      using scan_round_read [of s2 "[b]"] s2 na la len by auto
    define s4 where "s4 = s3\<lparr>scan_data := scan_data s3 @ b, scan_err := None\<rparr>"
    have f2: "scan_fill [b] s3 = ([], s4)"
      unfolding s4_def using s3 both(2) lab len by (intro scan_fill_chunk) simp_all
    have "Scan [a, b] NewScanner = Scan [b] s2" using step1 f1 by simp
    also have "\<dots> = Scan [] s4"
      using r2 f2 by (simp add: Scan.simps [of "[b]" s2])
    finally have "Scan [a, b] NewScanner = Scan [] s4" .
    moreover have "\<exists>rd s. Scan [] s4 = (True, rd, s) \<and>
           scan_token s = Some (dropCR l) \<and> scan_err s = None \<and> scan_data s = [] \<and>
           scan_buf_len s = 4096 \<and> scan_start s = length l + 1 \<and> (rd = [] \<or> rd = [[]])"
      using s3 ab by (intro fin) (simp_all add: s4_def)
    ultimately show ?thesis by simp
  qed
qed

lemma Scan_exhausted:
  assumes "scan_err s = None" and "scan_data s = []" and "scan_buf_len s = 4096"
    and "scan_start s \<le> 4096" and "rd = [] \<or> rd = [[]]"
  shows "\<exists>s'. Scan rd s = (False, [], s') \<and> scan_err s' = Some EOF"
proof -
  have sp: "scan_split s = (False, s)"
    using assms(1,2) by (simp add: scan_split_def)
  define s2 where "s2 = scan_shift s"
  have s2: "scan_err s2 = None" "scan_data s2 = []" "scan_buf_len s2 = 4096" "\<not> scan_full s2"
    using assms(1-4) by (auto simp: s2_def scan_shift_def scan_full_def)
  have "scan_round rd s = Inr (scan_fill rd s2)"
    using sp assms(1) s2 by (simp add: scan_round_def s2_def [symmetric])
  also have "scan_fill rd s2 = ([], s2\<lparr>scan_data := scan_data s2, scan_err := Some EOF\<rparr>)"
    using assms(5) by (rule scan_fill_eof)
  finally have "Scan rd s = Scan [] (s2\<lparr>scan_data := scan_data s2, scan_err := Some EOF\<rparr>)"
    by (simp add: Scan.simps [of rd s])
  also have "\<dots> = (False, [], s2\<lparr>scan_data := [], scan_err := Some EOF, scan_token := None,
      scan_start := 0\<rparr>)"
    using s2
    by (simp add: Scan.simps [of "[]"] scan_round_def scan_split_def ScanLines_def)
  finally show ?thesis by simp
qed

lemma Read_line:
  assumes "Scan rd0 NewScanner = (True, rd, s)"
    and "scan_token s = Some t" and "scan_err s = None"
  shows "Read (New rd0) = (ParseMessage t, \<lparr>rw = rd, scanner = s\<rparr>)"
  using assms by (simp add: Read_def New_def Err_def Text_def)

lemma Read_exhausted:
  assumes "Scan rd s = (False, rd', s')" and "scan_err s' = Some EOF"
  shows "Read \<lparr>rw = rd, scanner = s\<rparr> =
    (Return (Message_zero, Some EOF), \<lparr>rw = rd', scanner = s'\<rparr>)"
  using assms by (simp add: Read_def Err_def)

text \<open>
  A line of fewer than 4096 bytes that arrives in two chunks, cut anywhere, is handed to
  ParseMessage once, whole and without its newline, exactly as when it arrives in one
  chunk; the next Read reports the end of the stream.
\<close>

lemma Read_two_chunks:
  assumes "CHR 0x0A \<notin> set l" and "length l < 4096" and "a @ b = l @ [CHR 0x0A]"
  shows "fst (Read (New [a, b])) = ParseMessage (dropCR l)"
    and "fst (Read (New [l @ [CHR 0x0A]])) = ParseMessage (dropCR l)"
    and "fst (Read (snd (Read (New [a, b])))) = Return (Message_zero, Some EOF)"
proof -
  obtain rd s where sc: "Scan [a, b] NewScanner = (True, rd, s)"
    and s: "scan_token s = Some (dropCR l)" "scan_err s = None" "scan_data s = []"
      "scan_buf_len s = 4096" "scan_start s = length l + 1" "rd = [] \<or> rd = [[]]"
    using Scan_two_chunks [OF assms] by blast
  have r1: "Read (New [a, b]) = (ParseMessage (dropCR l), \<lparr>rw = rd, scanner = s\<rparr>)"
    using sc s(1,2) by (rule Read_line)
  then show "fst (Read (New [a, b])) = ParseMessage (dropCR l)" by simp
  from assms(2) s have "scan_start s \<le> 4096" by simp
  with s obtain s' where "Scan rd s = (False, [], s')" and "scan_err s' = Some EOF"
    using Scan_exhausted [of s rd] by blast
  then have "Read \<lparr>rw = rd, scanner = s\<rparr> =
      (Return (Message_zero, Some EOF), \<lparr>rw = [], scanner = s'\<rparr>)"
    by (rule Read_exhausted)
  with r1 show "fst (Read (snd (Read (New [a, b])))) = Return (Message_zero, Some EOF)"
    by simp
  obtain rd1 s1 where "Scan [l @ [CHR 0x0A]] NewScanner = (True, rd1, s1)"
    and "scan_token s1 = Some (dropCR l)" "scan_err s1 = None"
    using Scan_one_chunk [OF assms(1,2)] by blast
  then have "Read (New [l @ [CHR 0x0A]]) = (ParseMessage (dropCR l), \<lparr>rw = rd1, scanner = s1\<rparr>)"
    by (rule Read_line)
  then show "fst (Read (New [l @ [CHR 0x0A]])) = ParseMessage (dropCR l)" by simp
qed

section \<open>Segment count\<close>

text \<open>
  Claim C3. A line whose number of comma-separated segments is not four makes ParseMessage
  return the zero message together with the error built by
  \<open>errors.Errorf("expected 4 parts got: %#v", parts)\<close>, whose argument is the list of the
  segments that were seen. No field of the returned message comes from the input.
\<close>

theorem wrong_segment_count_error:
  assumes "length (Split s (CHR '','')) \<noteq> 4"
  shows "ParseMessage s =
    Return (Message_zero, Some (Errorf ''expected 4 parts got: %#v'' (Split s (CHR '',''))))"
  using assms by (simp add: ParseMessage_def Let_def)

theorem wrong_segment_count_error_witness:
  "length (Split ''[1000],045,x'' (CHR '','')) \<noteq> 4 \<and>
   ParseMessage ''[1000],045,x'' =
     Return (Message_zero,
       Some (Errorf ''expected 4 parts got: %#v'' [''[1000]'', ''045'', ''x''])) \<and>
   length (Split ''[1000],045,x,\"a,b\"'' (CHR '','')) \<noteq> 4 \<and>
   ParseMessage ''[1000],045,x,\"a,b\"'' =
     Return (Message_zero,
       Some (Errorf ''expected 4 parts got: %#v''
               [''[1000]'', ''045'', ''x'', ''\"a'', ''b\"'']))"
  using wrong_segment_count_error [of "''[1000],045,x''"]
    wrong_segment_count_error [of "''[1000],045,x,\"a,b\"''"]
  by (simp add: Split_Nil Split_Cons)

section \<open>Truncated bit field\<close>

text \<open>
  Claim C1, as the code has it. The source indexes the bit field at fixed offsets with no
  bounds check, so a four-segment line whose first segment has fewer than 19 characters
  never yields a typed truncation error. If the segment has at least 7 characters and the
  character at position 6 is not a decimal digit, ParseMessage returns the zero message
  with the syntax error of strconv.Atoi; in every other case it panics, at the first
  index or slice that is out of range.
\<close>

theorem truncated_bit_field_outcome:
  assumes "Split s (CHR '','') = [bits, zone, raw, msg]"
    and "length bits < 19"
  shows "ParseMessage s =
    (if 7 \<le> length bits \<and> bits ! 6 \<notin> set ''0123456789''
     then Return (Message_zero, Some (NumError ''Atoi'' [bits ! 6] ErrSyntax))
     else Panic (if length bits = 6 then BoundsSliceAlen 7 6
                 else if 17 \<le> length bits then BoundsSliceAlen 19 (int (length bits))
                 else BoundsIndex (max 1 (int (length bits))) (int (length bits))))"
  using assms by (rule ParseMessage_short)

theorem truncated_bit_field_outcome_witness:
  "Split ''[0000000001,,,\"test\"'' (CHR '','') = [''[0000000001'', [], [], ''\"test\"''] \<and>
   length ''[0000000001'' < 19 \<and>
   ParseMessage ''[0000000001,,,\"test\"'' = Panic (BoundsIndex 11 11)"
  using truncated_bit_field_outcome
    [of "''[0000000001,,,\"test\"''" "''[0000000001''" "[]" "[]" "''\"test\"''"]
  by (simp add: Split_Nil Split_Cons)

text \<open>
  The claim as stated fails: the first segment below has 11 characters, and the call
  panics with ``index out of range [11] with length 11'' instead of returning an error.
\<close>

theorem truncated_bit_field_counterexample:
  "Split ''[1000060110,045,[f71f],\"READY\"'' (CHR '','') =
     [''[1000060110'', ''045'', ''[f71f]'', ''\"READY\"''] \<and>
   length ''[1000060110'' < 19 \<and>
   ParseMessage ''[1000060110,045,[f71f],\"READY\"'' = Panic (BoundsIndex 11 11)"
proof -
  have parts: "Split ''[1000060110,045,[f71f],\"READY\"'' (CHR '','') =
     [''[1000060110'', ''045'', ''[f71f]'', ''\"READY\"'']"
    by (simp add: Split_Nil Split_Cons)
  have "ParseMessage ''[1000060110,045,[f71f],\"READY\"'' = Panic (BoundsIndex 11 11)"
    using ParseMessage_short [OF parts] by simp
  with parts show ?thesis by simp
qed

section \<open>Short keypad text\<close>

text \<open>
  Claim C5, as the code has it. The source takes \<open>msg[1 : len(msg)-1]\<close> with no length
  check, so a four-segment line whose fourth segment has fewer than 2 characters never
  yields a typed keypad-text error. The bit field is decoded first: a non-digit at its
  position 6 gives the syntax error of strconv.Atoi, a bit field of fewer than 19
  characters panics at the first index or slice out of range, and otherwise the slice of
  the fourth segment panics: ``slice bounds out of range [:-1]'' for an empty segment,
  ``slice bounds out of range [1:0]'' for a segment of one character.
\<close>

theorem short_keypad_text_outcome:
  assumes "Split s (CHR '','') = [bits, zone, raw, msg]"
    and "length msg < 2"
  shows "ParseMessage s =
    (if 7 \<le> length bits \<and> bits ! 6 \<notin> set ''0123456789''
     then Return (Message_zero, Some (NumError ''Atoi'' [bits ! 6] ErrSyntax))
     else Panic (if length bits = 6 then BoundsSliceAlen 7 6
                 else if length bits < 17
                   then BoundsIndex (max 1 (int (length bits))) (int (length bits))
                 else if length bits < 19 then BoundsSliceAlen 19 (int (length bits))
                 else if msg = [] then BoundsSliceAlen (- 1) 0
                 else BoundsSliceB 1 0))"
proof (cases "19 \<le> length bits")
  case True
  then show ?thesis
    using assms ParseMessage_long [OF assms(1) True] by simp
next
  case False
  then have "length bits < 19" by simp
  then show ?thesis
    using ParseMessage_short [OF assms(1)] by simp
qed

theorem short_keypad_text_outcome_witness:
  "Split ''[10000601100000003A--],045,[f71f],'' (CHR '','') =
     [''[10000601100000003A--]'', ''045'', ''[f71f]'', []] \<and>
   length ([] :: string) < 2 \<and>
   ParseMessage ''[10000601100000003A--],045,[f71f],'' = Panic (BoundsSliceAlen (- 1) 0)"
  using short_keypad_text_outcome
    [of "''[10000601100000003A--],045,[f71f],''" "''[10000601100000003A--]''"
        "''045''" "''[f71f]''" "[]"]
  by (simp add: Split_Nil Split_Cons)

text \<open>
  The claim as stated fails: the fourth segment below is a lone quote mark, and the call
  panics with ``slice bounds out of range [1:0]'' instead of returning an error.
\<close>

theorem short_keypad_text_counterexample:
  "Split ''[00000000011000003A--],,,\"'' (CHR '','') =
     [''[00000000011000003A--]'', [], [], ''\"''] \<and>
   length ''\"'' < 2 \<and>
   ParseMessage ''[00000000011000003A--],,,\"'' = Panic (BoundsSliceB 1 0)"
proof -
  have parts: "Split ''[00000000011000003A--],,,\"'' (CHR '','') =
     [''[00000000011000003A--]'', [], [], ''\"'']"
    by (simp add: Split_Nil Split_Cons)
  have "ParseMessage ''[00000000011000003A--],,,\"'' = Panic (BoundsSliceB 1 0)"
    using ParseMessage_long [OF parts] by simp
  with parts show ?thesis by simp
qed

section \<open>Beep count\<close>

text \<open>
  Claim C4. Take a line of four segments whose bit field has at least 19 characters and
  whose keypad segment has at least 2. If the character at position 6 of the bit field is
  the digit \<open>d\<close> with \<open>d\<close> from 0 to 7, ParseMessage succeeds and \<open>Beeps\<close> is \<open>d\<close>. If that
  character is not a decimal digit, ParseMessage returns the zero message and the syntax
  error of strconv.Atoi on that character.
\<close>

theorem beep_count_extraction:
  assumes "Split s (CHR '','') = [bits, zone, raw, msg]"
    and "19 \<le> length bits"
    and "2 \<le> length msg"
  shows "(d < 8 \<and> bits ! 6 = ''01234567'' ! d \<longrightarrow>
            (\<exists>m. ParseMessage s = Return (m, None) \<and> Beeps m = int d)) \<and>
         (bits ! 6 \<notin> set ''0123456789'' \<longrightarrow>
            ParseMessage s =
              Return (Message_zero, Some (NumError ''Atoi'' [bits ! 6] ErrSyntax)))"
proof (intro conjI impI)
  assume "d < 8 \<and> bits ! 6 = ''01234567'' ! d"
  then have "d < 8" and c: "bits ! 6 = ''01234567'' ! d" by simp_all
  then have "d = 0 \<or> d = 1 \<or> d = 2 \<or> d = 3 \<or> d = 4 \<or> d = 5 \<or> d = 6 \<or> d = 7"
    by arith
  then have "bits ! 6 \<in> set ''0123456789'' \<and> (of_char (bits ! 6) :: int) - 48 = int d"
    using c by (elim disjE) simp_all
  then show "\<exists>m. ParseMessage s = Return (m, None) \<and> Beeps m = int d"
    using ParseMessage_long [OF assms(1,2)] assms(3) by simp
next
  assume "bits ! 6 \<notin> set ''0123456789''"
  then show "ParseMessage s =
      Return (Message_zero, Some (NumError ''Atoi'' [bits ! 6] ErrSyntax))"
    using ParseMessage_long [OF assms(1,2)] by simp
qed

theorem beep_count_extraction_witness:
  "Split ''[10000601100000003A--],045,[f71f],\"READY\"'' (CHR '','') =
     [''[10000601100000003A--]'', ''045'', ''[f71f]'', ''\"READY\"''] \<and>
   19 \<le> length ''[10000601100000003A--]'' \<and> 2 \<le> length ''\"READY\"'' \<and>
   ''[10000601100000003A--]'' ! 6 = ''01234567'' ! 6 \<and>
   (\<exists>m. ParseMessage ''[10000601100000003A--],045,[f71f],\"READY\"'' = Return (m, None) \<and>
        Beeps m = 6) \<and>
   Split ''[10000x01100000003A--],045,[f71f],\"READY\"'' (CHR '','') =
     [''[10000x01100000003A--]'', ''045'', ''[f71f]'', ''\"READY\"''] \<and>
   ''[10000x01100000003A--]'' ! 6 \<notin> set ''0123456789'' \<and>
   ParseMessage ''[10000x01100000003A--],045,[f71f],\"READY\"'' =
     Return (Message_zero, Some (NumError ''Atoi'' ''x'' ErrSyntax))"
  using beep_count_extraction
    [of "''[10000601100000003A--],045,[f71f],\"READY\"''" "''[10000601100000003A--]''"
        "''045''" "''[f71f]''" "''\"READY\"''" 6]
    beep_count_extraction
    [of "''[10000x01100000003A--],045,[f71f],\"READY\"''" "''[10000x01100000003A--]''"
        "''045''" "''[f71f]''" "''\"READY\"''" 0]
  by (simp add: Split_Nil Split_Cons)

section \<open>Beep counts beyond seven\<close>

text \<open>
  Claim C8, as the code has it. On a line of four segments whose bit field has at least
  19 characters and whose keypad segment has at least 2, the digit 8 or 9 at position 6
  is accepted: ParseMessage succeeds and \<open>Beeps\<close> is 8 or 9. The keypad segment has to be
  long enough as well, or the call panics after the bit field is decoded.
\<close>

theorem beeps_eight_and_nine_accepted:
  assumes "Split s (CHR '','') = [bits, zone, raw, msg]"
    and "19 \<le> length bits"
    and "2 \<le> length msg"
    and "bits ! 6 = CHR ''8'' \<or> bits ! 6 = CHR ''9''"
  shows "\<exists>m. ParseMessage s = Return (m, None) \<and>
             Beeps m = (if bits ! 6 = CHR ''8'' then 8 else 9)"
  using ParseMessage_long [OF assms(1,2)] assms(3,4) by auto

theorem beeps_eight_and_nine_accepted_witness:
  "Split ''[00000900000000003A--],,,\"test\"'' (CHR '','') =
     [''[00000900000000003A--]'', [], [], ''\"test\"''] \<and>
   19 \<le> length ''[00000900000000003A--]'' \<and> 2 \<le> length ''\"test\"'' \<and>
   ''[00000900000000003A--]'' ! 6 = CHR ''9'' \<and>
   (\<exists>m. ParseMessage ''[00000900000000003A--],,,\"test\"'' = Return (m, None) \<and>
        Beeps m = 9)"
  using beeps_eight_and_nine_accepted
    [of "''[00000900000000003A--],,,\"test\"''" "''[00000900000000003A--]''" "[]" "[]"
        "''\"test\"''"]
  by (simp add: Split_Nil Split_Cons)

text \<open>
  The claim as stated fails on a line whose bit field is long enough and has 8 at
  position 6, but whose fourth segment is empty: the call panics.
\<close>

theorem beeps_eight_and_nine_counterexample:
  "Split ''[00000800000000003A--],,,'' (CHR '','') =
     [''[00000800000000003A--]'', [], [], []] \<and>
   19 \<le> length ''[00000800000000003A--]'' \<and>
   ''[00000800000000003A--]'' ! 6 = CHR ''8'' \<and>
   ParseMessage ''[00000800000000003A--],,,'' = Panic (BoundsSliceAlen (- 1) 0)"
proof -
  have parts: "Split ''[00000800000000003A--],,,'' (CHR '','') =
     [''[00000800000000003A--]'', [], [], []]"
    by (simp add: Split_Nil Split_Cons)
  have "ParseMessage ''[00000800000000003A--],,,'' = Panic (BoundsSliceAlen (- 1) 0)"
    using ParseMessage_long [OF parts] by simp
  with parts show ?thesis by simp
qed

section \<open>Keypad text\<close>

text \<open>
  Claim C7. On a line of four segments whose bit field has at least 19 characters with a
  decimal digit at position 6 and whose keypad segment \<open>msg\<close> has at least 2 characters,
  ParseMessage succeeds and \<open>msg\<close> is its first character, white space \<open>l\<close>,
  \<open>KeypadMessage\<close>, white space \<open>r\<close> and its last character, where \<open>KeypadMessage\<close>
  neither starts nor ends with a white-space rune: one character is removed at each end,
  the remainder is trimmed, and what lies inside is kept as it is. The segment
  \<open>"****DISARMED****  READY TO ARM  "\<close> gives \<open>****DISARMED****  READY TO ARM\<close>.
\<close>

theorem keypad_text_stripping:
  assumes "Split s (CHR '','') = [bits, zone, raw, msg]"
    and "19 \<le> length bits"
    and "bits ! 6 \<in> set ''0123456789''"
    and "2 \<le> length msg"
  shows "\<exists>m l r. ParseMessage s = Return (m, None) \<and>
           msg = hd msg # l @ KeypadMessage m @ r @ [last msg] \<and>
           (\<exists>ws. set ws \<subseteq> set space_runes \<and> l = concat ws) \<and>
           (\<exists>ws. set ws \<subseteq> set space_runes \<and> r = concat ws) \<and>
           leading_space (KeypadMessage m) = None \<and>
           trailing_space (KeypadMessage m) = None \<and>
           (msg = ''\"****DISARMED****  READY TO ARM  \"'' \<longrightarrow>
              KeypadMessage m = ''****DISARMED****  READY TO ARM'')"
proof -
  obtain m where m: "ParseMessage s = Return (m, None)"
    and k: "KeypadMessage m = TrimSpace (butlast (tl msg))"
    using ParseMessage_long [OF assms(1,2)] assms(3,4) by simp
  from assms(4) obtain a xs where "msg = a # xs" by (cases msg) auto
  moreover from this assms(4) obtain t b where "xs = t @ [b]"
    by (cases xs rule: rev_cases) auto
  ultimately have msg: "msg = a # t @ [b]" by simp
  then have t: "butlast (tl msg) = t" by simp
  obtain l r where l: "\<exists>ws. set ws \<subseteq> set space_runes \<and> l = concat ws"
    and r: "\<exists>ws. set ws \<subseteq> set space_runes \<and> r = concat ws"
    and mid: "t = l @ TrimSpace t @ r"
    and edge: "leading_space (TrimSpace t) = None" "trailing_space (TrimSpace t) = None"
    using TrimSpace_spec [of t] by blast
  have "a # t @ [b] = a # (l @ TrimSpace t @ r) @ [b]"
    using mid by (rule arg_cong [where f = "\<lambda>x. a # x @ [b]"])
  then have shape: "msg = hd msg # l @ KeypadMessage m @ r @ [last msg]"
    using k t msg by simp
  have example: "msg = ''\"****DISARMED****  READY TO ARM  \"'' \<longrightarrow>
      KeypadMessage m = ''****DISARMED****  READY TO ARM''"
    using k by (simp add: trim_eval)
  have lead: "leading_space (KeypadMessage m) = None"
    and trail: "trailing_space (KeypadMessage m) = None"
    using edge k t by simp_all
  from m shape l r lead trail example show ?thesis
    by (intro exI [of _ m] exI [of _ l] exI [of _ r] conjI)
qed

theorem keypad_text_stripping_witness:
  "Split
     ''[10000601100000003A--],045,[f71f00000045001c28020000000000],\"****DISARMED****  READY TO ARM  \"''
     (CHR '','') =
     [''[10000601100000003A--]'', ''045'', ''[f71f00000045001c28020000000000]'',
      ''\"****DISARMED****  READY TO ARM  \"''] \<and>
   19 \<le> length ''[10000601100000003A--]'' \<and>
   ''[10000601100000003A--]'' ! 6 \<in> set ''0123456789'' \<and>
   2 \<le> length ''\"****DISARMED****  READY TO ARM  \"'' \<and>
   (\<exists>m. ParseMessage
          ''[10000601100000003A--],045,[f71f00000045001c28020000000000],\"****DISARMED****  READY TO ARM  \"'' =
          Return (m, None) \<and>
        KeypadMessage m = ''****DISARMED****  READY TO ARM'')"
proof -
  have parts: "Split
     ''[10000601100000003A--],045,[f71f00000045001c28020000000000],\"****DISARMED****  READY TO ARM  \"''
     (CHR '','') =
     [''[10000601100000003A--]'', ''045'', ''[f71f00000045001c28020000000000]'',
      ''\"****DISARMED****  READY TO ARM  \"'']"
    by (simp add: Split_Nil Split_Cons)
  from keypad_text_stripping [OF parts] show ?thesis
    using parts by auto
qed

section \<open>Quote marks are not checked\<close>

text \<open>
  Claim C10, as the code has it. On a line of four segments whose bit field has at least
  19 characters with a decimal digit at position 6, a fourth segment \<open>a # mid @ [b]\<close>
  (any segment of at least 2 characters) loses its first and its last character whatever
  they are: ParseMessage succeeds and \<open>KeypadMessage\<close> is \<open>TrimSpace mid\<close>. The segment
  \<open>xtestx\<close> gives \<open>test\<close>. The bit field has to be decodable, or the call stops before it
  reaches the fourth segment.
\<close>

theorem keypad_quotes_unchecked:
  assumes "Split s (CHR '','') = [bits, zone, raw, a # mid @ [b]]"
    and "19 \<le> length bits"
    and "bits ! 6 \<in> set ''0123456789''"
  shows "\<exists>m. ParseMessage s = Return (m, None) \<and> KeypadMessage m = TrimSpace mid \<and>
             (a # mid @ [b] = ''xtestx'' \<longrightarrow> KeypadMessage m = ''test'')"
proof -
  have "2 \<le> length (a # mid @ [b])" by simp
  moreover have "butlast (tl (a # mid @ [b])) = mid" by simp
  ultimately obtain m where m: "ParseMessage s = Return (m, None)"
    and k: "KeypadMessage m = TrimSpace mid"
    using ParseMessage_long [OF assms(1,2)] assms(3) by simp
  have "a # mid @ [b] = ''xtestx'' \<longrightarrow> mid = ''test''" by auto
  then have "a # mid @ [b] = ''xtestx'' \<longrightarrow> KeypadMessage m = ''test''"
    using k by (auto simp: trim_eval)
  with m k show ?thesis by blast
qed

theorem keypad_quotes_unchecked_witness:
  "Split ''[00000000011000003A--],,,xtestx'' (CHR '','') =
     [''[00000000011000003A--]'', [], [], CHR ''x'' # ''test'' @ ''x''] \<and>
   19 \<le> length ''[00000000011000003A--]'' \<and>
   ''[00000000011000003A--]'' ! 6 \<in> set ''0123456789'' \<and>
   (\<exists>m. ParseMessage ''[00000000011000003A--],,,xtestx'' = Return (m, None) \<and>
        KeypadMessage m = ''test'')"
  using keypad_quotes_unchecked
    [of "''[00000000011000003A--],,,xtestx''" "''[00000000011000003A--]''" "[]" "[]"
        "CHR ''x''" "''test''" "CHR ''x''"]
  by (auto simp: Split_Nil Split_Cons)

text \<open>
  The claim as stated fails on a line whose fourth segment is \<open>xtestx\<close> but whose bit
  field is empty: the call panics at \<open>bits[1]\<close> and no keypad text is produced.
\<close>

theorem keypad_quotes_unchecked_counterexample:
  "Split '',,,xtestx'' (CHR '','') = [[], [], [], ''xtestx''] \<and>
   2 \<le> length ''xtestx'' \<and>
   ParseMessage '',,,xtestx'' = Panic (BoundsIndex 1 0)"
proof -
  have parts: "Split '',,,xtestx'' (CHR '','') = [[], [], [], ''xtestx'']"
    by (simp add: Split_Nil Split_Cons)
  have "ParseMessage '',,,xtestx'' = Panic (BoundsIndex 1 0)"
    using ParseMessage_short [OF parts] by simp
  with parts show ?thesis by simp
qed

section \<open>One flag per position\<close>

text \<open>
  Claim C6. Let \<open>k\<close> be a boolean position, from 1 to 16 and not 6. On a line of four
  segments whose bit field has at least 19 characters, a decimal digit at position 6,
  \<open>1\<close> at position \<open>k\<close> and \<open>0\<close> at every other boolean position, and whose keypad segment
  has at least 2 characters, ParseMessage succeeds, the flag of position \<open>k\<close> is true and
  the flag of every other boolean position is false.
\<close>

theorem one_flag_per_position:
  assumes "Split s (CHR '','') = [bits, zone, raw, msg]"
    and "19 \<le> length bits"
    and "bits ! 6 \<in> set ''0123456789''"
    and "2 \<le> length msg"
    and "k \<in> {1..16} - {6}"
    and "\<forall>j \<in> {1..16} - {6}. bits ! j = (if j = k then CHR ''1'' else CHR ''0'')"
  shows "\<exists>m. ParseMessage s = Return (m, None) \<and> (\<forall>j \<in> {1..16} - {6}. flag j m = (j = k))"
proof -
  obtain m where m: "ParseMessage s = Return (m, None)"
    and f: "Ready m = (bits ! 1 = CHR ''1'')" "ArmedAway m = (bits ! 2 = CHR ''1'')"
      "ArmedHome m = (bits ! 3 = CHR ''1'')" "BacklightOn m = (bits ! 4 = CHR ''1'')"
      "ProgrammingMode m = (bits ! 5 = CHR ''1'')" "ZoneBypassed m = (bits ! 7 = CHR ''1'')"
      "ACPower m = (bits ! 8 = CHR ''1'')" "ChimeEnabled m = (bits ! 9 = CHR ''1'')"
      "AlarmHasOccured m = (bits ! 10 = CHR ''1'')" "AlarmSounding m = (bits ! 11 = CHR ''1'')"
      "BatteryLow m = (bits ! 12 = CHR ''1'')" "EntryDelayDisabled m = (bits ! 13 = CHR ''1'')"
      "Fire m = (bits ! 14 = CHR ''1'')" "SystemIssue m = (bits ! 15 = CHR ''1'')"
      "PerimeterOnly m = (bits ! 16 = CHR ''1'')"
    using ParseMessage_long [OF assms(1,2)] assms(3,4) by simp
  have "flag j m = (j = k)" if j: "j \<in> {1..16} - {6}" for j
  proof -
    from j have "j \<in> {1, 2, 3, 4, 5, 7, 8, 9, 10, 11, 12, 13, 14, 15, 16}"
      by simp arith
    then have "flag j m = (bits ! j = CHR ''1'')"
      by (auto simp: flag_def f)
    moreover from assms(6) j have "bits ! j = (if j = k then CHR ''1'' else CHR ''0'')"
      by blast
    ultimately show ?thesis by simp
  qed
  with m show ?thesis by blast
qed

theorem one_flag_per_position_witness:
  "Split ''[00000000000001003A--],,,\"test\"'' (CHR '','') =
     [''[00000000000001003A--]'', [], [], ''\"test\"''] \<and>
   map (\<lambda>j. ''[00000000000001003A--]'' ! j) [1, 2, 3, 4, 5, 7, 8, 9, 10, 11, 12, 13, 14, 15, 16] =
     ''000000000000100'' \<and>
   (\<exists>m. ParseMessage ''[00000000000001003A--],,,\"test\"'' = Return (m, None) \<and>
        map (\<lambda>j. flag j m) [1, 2, 3, 4, 5, 7, 8, 9, 10, 11, 12, 13, 14, 15, 16] =
          [False, False, False, False, False, False, False, False, False, False, False,
           False, True, False, False])"
proof -
  have parts: "Split ''[00000000000001003A--],,,\"test\"'' (CHR '','') =
     [''[00000000000001003A--]'', [], [], ''\"test\"'']"
    by (simp add: Split_Nil Split_Cons)
  have bits: "\<forall>j \<in> {1..16} - {6}.
      ''[00000000000001003A--]'' ! j = (if j = 14 then CHR ''1'' else CHR ''0'')"
  proof
    fix j :: nat
    assume "j \<in> {1..16} - {6}"
    then have "j \<in> {1, 2, 3, 4, 5, 7, 8, 9, 10, 11, 12, 13, 14, 15, 16}"
      by simp arith
    then show "''[00000000000001003A--]'' ! j = (if j = 14 then CHR ''1'' else CHR ''0'')"
      by auto
  qed
  from one_flag_per_position [OF parts _ _ _ _ bits]
  obtain m where m: "ParseMessage ''[00000000000001003A--],,,\"test\"'' = Return (m, None)"
    and fl: "\<forall>j \<in> {1..16} - {6}. flag j m = (j = 14)"
    by auto
  from fl have "map (\<lambda>j. flag j m) [1, 2, 3, 4, 5, 7, 8, 9, 10, 11, 12, 13, 14, 15, 16] =
      [False, False, False, False, False, False, False, False, False, False, False,
       False, True, False, False]"
    by simp
  with m parts show ?thesis by simp
qed

section \<open>Positions the decoder never reads\<close>

text \<open>
  Claim C9. Take two lines of four segments each, with the same second, third and fourth
  segment, whose bit fields agree at every position from 1 to 18 other than 17: such a
  position exists in both or in neither, and holds the same character where it exists.
  Positions 0, 17 and 19 onwards are free. Then ParseMessage ends the same way on both:
  either both calls return, with the same error value and with messages that are equal
  once \<open>UnparsedMessage\<close> is set aside, or both calls panic. A bit field without brackets
  is accepted like one with them.
\<close>

theorem unread_positions_ignored:
  assumes "Split s1 (CHR '','') = [bits1, zone, raw, msg]"
    and "Split s2 (CHR '','') = [bits2, zone, raw, msg]"
    and "\<forall>i < 19. i \<noteq> 0 \<and> i \<noteq> 17 \<longrightarrow>
           (i < length bits1 \<longleftrightarrow> i < length bits2) \<and>
           (i < length bits1 \<longrightarrow> bits1 ! i = bits2 ! i)"
  shows "(\<exists>m1 m2 e. ParseMessage s1 = Return (m1, e) \<and> ParseMessage s2 = Return (m2, e) \<and>
            m1\<lparr>UnparsedMessage := u\<rparr> = m2\<lparr>UnparsedMessage := u\<rparr>) \<or>
         (\<exists>p1 p2. ParseMessage s1 = Panic p1 \<and> ParseMessage s2 = Panic p2)"
proof (cases "19 \<le> length bits1")
  case True
  then have len2: "19 \<le> length bits2" using assms(3) by (auto dest: spec [of _ 18])
  have same: "bits1 ! i = bits2 ! i" if "i < 19" "i \<noteq> 0" "i \<noteq> 17" for i
    using assms(3) that True by auto
  have eqs: "bits1 ! 1 = bits2 ! 1" "bits1 ! 2 = bits2 ! 2" "bits1 ! 3 = bits2 ! 3"
    "bits1 ! 4 = bits2 ! 4" "bits1 ! 5 = bits2 ! 5" "bits1 ! 6 = bits2 ! 6"
    "bits1 ! 7 = bits2 ! 7" "bits1 ! 8 = bits2 ! 8" "bits1 ! 9 = bits2 ! 9"
    "bits1 ! 10 = bits2 ! 10" "bits1 ! 11 = bits2 ! 11" "bits1 ! 12 = bits2 ! 12"
    "bits1 ! 13 = bits2 ! 13" "bits1 ! 14 = bits2 ! 14" "bits1 ! 15 = bits2 ! 15"
    "bits1 ! 16 = bits2 ! 16" "bits1 ! 18 = bits2 ! 18"
    by (simp_all add: same)
  note P1 = ParseMessage_long [OF assms(1) True]
  note P2 = ParseMessage_long [OF assms(2) len2, folded eqs]
  show ?thesis
  proof (cases "bits1 ! 6 \<in> set ''0123456789''")
    case digit: True
    show ?thesis
    proof (cases "2 \<le> length msg")
      case True
      with digit P1 P2 show ?thesis by simp
    next
      case False
      with digit P1 P2 show ?thesis by simp
    qed
  next
    case False
    with P1 P2 show ?thesis by simp
  qed
next
  case False
  then have len1: "length bits1 < 19" by simp
  have len2: "length bits2 < 19"
  proof (rule ccontr)
    assume "\<not> length bits2 < 19"
    then have "18 < length bits2" by simp
    with assms(3) have "18 < length bits1" by (auto dest: spec [of _ 18])
    with len1 show False by simp
  qed
  have six: "(7 \<le> length bits1 \<longleftrightarrow> 7 \<le> length bits2) \<and>
      (7 \<le> length bits1 \<longrightarrow> bits1 ! 6 = bits2 ! 6)"
    using assms(3) by (auto dest: spec [of _ 6])
  note P1 = ParseMessage_short [OF assms(1) len1]
  note P2 = ParseMessage_short [OF assms(2) len2]
  show ?thesis
  proof (cases "7 \<le> length bits1 \<and> bits1 ! 6 \<notin> set ''0123456789''")
    case True
    with six have "7 \<le> length bits2 \<and> bits2 ! 6 \<notin> set ''0123456789''" by simp
    with True six P1 P2 show ?thesis by simp
  next
    case False
    with six have "\<not> (7 \<le> length bits2 \<and> bits2 ! 6 \<notin> set ''0123456789'')" by auto
    with False P1 P2 show ?thesis by simp
  qed
qed

theorem unread_positions_ignored_witness:
  "Split ''[00000000011000003A--],,,\"test\"'' (CHR '','') =
     [''[00000000011000003A--]'', [], [], ''\"test\"''] \<and>
   Split ''X0000000001100000fA,,,\"test\"'' (CHR '','') =
     [''X0000000001100000fA'', [], [], ''\"test\"''] \<and>
   (\<exists>m1 m2. ParseMessage ''[00000000011000003A--],,,\"test\"'' = Return (m1, None) \<and>
      ParseMessage ''X0000000001100000fA,,,\"test\"'' = Return (m2, None) \<and>
      m1\<lparr>UnparsedMessage := []\<rparr> = m2\<lparr>UnparsedMessage := []\<rparr> \<and>
      AlarmHasOccured m2 \<and> AlarmSounding m2 \<and> Mode m2 = ''A'')"
proof -
  have p1: "Split ''[00000000011000003A--],,,\"test\"'' (CHR '','') =
     [''[00000000011000003A--]'', [], [], ''\"test\"'']"
    by (simp add: Split_Nil Split_Cons)
  have p2: "Split ''X0000000001100000fA,,,\"test\"'' (CHR '','') =
     [''X0000000001100000fA'', [], [], ''\"test\"'']"
    by (simp add: Split_Nil Split_Cons)
  have agree: "\<forall>i < 19. i \<noteq> 0 \<and> i \<noteq> 17 \<longrightarrow>
      (i < length ''[00000000011000003A--]'' \<longleftrightarrow> i < length ''X0000000001100000fA'') \<and>
      (i < length ''[00000000011000003A--]'' \<longrightarrow>
         ''[00000000011000003A--]'' ! i = ''X0000000001100000fA'' ! i)"
  proof (intro allI impI)
    fix i :: nat
    assume "i < 19" and "i \<noteq> 0 \<and> i \<noteq> 17"
    then have "i \<in> {1, 2, 3, 4, 5, 6, 7, 8, 9, 10, 11, 12, 13, 14, 15, 16, 18}"
      by simp arith
    then show "(i < length ''[00000000011000003A--]'' \<longleftrightarrow> i < length ''X0000000001100000fA'') \<and>
      (i < length ''[00000000011000003A--]'' \<longrightarrow>
         ''[00000000011000003A--]'' ! i = ''X0000000001100000fA'' ! i)"
      by auto
  qed
  have r2: "\<exists>m2. ParseMessage ''X0000000001100000fA,,,\"test\"'' = Return (m2, None) \<and>
      AlarmHasOccured m2 \<and> AlarmSounding m2 \<and> Mode m2 = ''A''"
    using ParseMessage_long [OF p2] by simp
  from unread_positions_ignored [OF p1 p2 agree, of "[]"] r2 p1 p2
  show ?thesis by auto
qed

section \<open>Streaming\<close>

text \<open>
  Claim C2. The stream is the 32 bytes of the test of Read, the line
  \<open>[00000000011000003A--],,,"test"\<close> and a newline. Cut at any offset \<open>k\<close> into two chunks,
  it makes the first Read return the same result as in one chunk: no error and the
  message with \<open>AlarmHasOccured\<close> and \<open>AlarmSounding\<close> true, \<open>Mode\<close> \<open>A\<close>, \<open>KeypadMessage\<close>
  \<open>test\<close>, an empty \<open>Zone\<close> and every other field zero but \<open>UnparsedMessage\<close>, which is the
  line. The line is parsed once: the second Read returns \<open>io.EOF\<close>.
\<close>

theorem chunked_read_same_message:
  assumes "stream = ''[00000000011000003A--],,,\"test\"'' @ [CHR 0x0A]"
    and "k \<le> length stream"
  shows "fst (Read (New [take k stream, drop k stream])) = fst (Read (New [stream])) \<and>
         fst (Read (New [take k stream, drop k stream])) =
           Return (Message_zero
                     \<lparr>UnparsedMessage := ''[00000000011000003A--],,,\"test\"'',
                      AlarmHasOccured := True, AlarmSounding := True, Mode := ''A'',
                      KeypadMessage := ''test''\<rparr>, None) \<and>
         fst (Read (snd (Read (New [take k stream, drop k stream])))) =
           Return (Message_zero, Some EOF)"
proof -
  let ?l = "''[00000000011000003A--],,,\"test\"''"
  have nl: "CHR 0x0A \<notin> set ?l" by simp
  have len: "length ?l < 4096" by simp
  have ab: "take k stream @ drop k stream = ?l @ [CHR 0x0A]"
    using assms(1) by simp
  have cr: "dropCR ?l = ?l" by (simp add: dropCR_def)
  have parts: "Split ?l (CHR '','') = [''[00000000011000003A--]'', [], [], ''\"test\"'']"
    by (simp add: Split_Nil Split_Cons)
  have pm: "ParseMessage ?l =
      Return (Message_zero
                \<lparr>UnparsedMessage := ?l, AlarmHasOccured := True, AlarmSounding := True,
                 Mode := ''A'', KeypadMessage := ''test''\<rparr>, None)"
    using ParseMessage_long [OF parts] by (simp add: Message_zero_def trim_eval)
  note rd = Read_two_chunks [OF nl len ab, unfolded cr pm]
  have one: "fst (Read (New [stream])) = fst (Read (New [?l @ [CHR 0x0A]]))"
    using assms(1) by simp
  from rd one show ?thesis by (simp only:)
qed

theorem chunked_read_same_message_witness:
  "(5 :: nat) \<le> length (''[00000000011000003A--],,,\"test\"'' @ [CHR 0x0A]) \<and>
   fst (Read (New [''[0000'', ''0000011000003A--],,,\"test\"'' @ [CHR 0x0A]])) =
     fst (Read (New [''[00000000011000003A--],,,\"test\"'' @ [CHR 0x0A]])) \<and>
   fst (Read (New [''[0000'', ''0000011000003A--],,,\"test\"'' @ [CHR 0x0A]])) =
     Return (Message_zero
               \<lparr>UnparsedMessage := ''[00000000011000003A--],,,\"test\"'',
                AlarmHasOccured := True, AlarmSounding := True, Mode := ''A'',
                KeypadMessage := ''test''\<rparr>, None) \<and>
   fst (Read (snd (Read (New [''[0000'', ''0000011000003A--],,,\"test\"'' @ [CHR 0x0A]])))) =
     Return (Message_zero, Some EOF)"
proof -
  have k: "(5 :: nat) \<le> length (''[00000000011000003A--],,,\"test\"'' @ [CHR 0x0A])"
    by simp
  note th = chunked_read_same_message [OF refl k]
  have e1: "fst (Read (New [''[0000'', ''0000011000003A--],,,\"test\"'' @ [CHR 0x0A]])) =
     fst (Read (New [''[00000000011000003A--],,,\"test\"'' @ [CHR 0x0A]]))"
    using th [THEN conjunct1] by simp
  have e2: "fst (Read (New [''[0000'', ''0000011000003A--],,,\"test\"'' @ [CHR 0x0A]])) =
     Return (Message_zero
               \<lparr>UnparsedMessage := ''[00000000011000003A--],,,\"test\"'',
                AlarmHasOccured := True, AlarmSounding := True, Mode := ''A'',
                KeypadMessage := ''test''\<rparr>, None)"
    using th [THEN conjunct2, THEN conjunct1] by simp
  have e3: "fst (Read (snd (Read (New [''[0000'', ''0000011000003A--],,,\"test\"'' @ [CHR 0x0A]])))) =
     Return (Message_zero, Some EOF)"
    using th [THEN conjunct2, THEN conjunct2] by simp
  from k e1 e2 e3 show ?thesis by (intro conjI)
qed

end
